theory Spec2Isabelle
  imports
    Main
    "HOL-Library.Dlist"
    "HOL-Library.Sublist"
    "HOL-Library.Multiset"
    "HOL-Library.Char_ord"
    "HOL-Library.List_Lexorder"
begin

section \<open>The vault and note model consumed by the commands\<close>

text \<open>
  The commands of \<^verbatim>\<open>obsidiana/_cli.py\<close> read a vault through \<^verbatim>\<open>vault.notes()\<close>,
  \<^verbatim>\<open>vault.child(name).read_text()\<close> and the accessors of a note, all declared in the
  module \<^verbatim>\<open>obsidiana.vault\<close>. The two types are given here as the data the commands
  see.
\<close>

text \<open>
  Modelled from the spec: the \<^verbatim>\<open>Note\<close> class of \<^verbatim>\<open>obsidiana.vault\<close>. A note has a
  \<^verbatim>\<open>subpath\<close> (its path relative to the vault root), a \<^verbatim>\<open>frontmatter\<close> mapping, a set of
  \<^verbatim>\<open>tags\<close> and a sequence of body \<^verbatim>\<open>lines\<close>. A Python set is finite, holds every
  element once and is iterated in some fixed order, so the tag set is a distinct list:
  the elements in the order the set yields them.
\<close>

record 'fm Note =
  subpath :: string
  frontmatter :: 'fm
  tags :: "string dlist"
  lines :: "string list"

text \<open>\<^verbatim>\<open>t in note.tags\<close>: membership in the tag set, an exact comparison of strings.\<close>

definition has_tag :: "'fm Note \<Rightarrow> string \<Rightarrow> bool" where
  "has_tag n t = (t \<in> set (list_of_dlist (tags n)))"

text \<open>
  Modelled from the spec: \<^verbatim>\<open>Note.awaiting_triage()\<close>. The spec fixes only that it is a
  total boolean check of the note's frontmatter under one fixed condition; the
  condition is the parameter \<open>triage\<close>.
\<close>

definition awaiting_triage :: "('fm \<Rightarrow> bool) \<Rightarrow> 'fm Note \<Rightarrow> bool" where
  "awaiting_triage triage n = triage (frontmatter n)"

text \<open>
  Modelled from the spec: the \<^verbatim>\<open>Vault\<close> class of \<^verbatim>\<open>obsidiana.vault\<close>. \<open>vault_notes\<close> is the
  finite sequence that one call of \<^verbatim>\<open>vault.notes()\<close> yields, in traversal order;
  \<open>files\<close> gives the text of the auxiliary files under the root, by relative name.
\<close>

record 'fm Vault =
  vault_notes :: "'fm Note list"
  files :: "string \<rightharpoonup> string"

datatype error =
  FileNotFoundError string
  | JSONDecodeError
  | SchemaError

text \<open>
  Modelled from the spec: \<^verbatim>\<open>Vault.child(name)\<close>, which resolves the name relative to the
  root and does not look whether the file exists.
\<close>

definition child :: "'fm Vault \<Rightarrow> string \<Rightarrow> string" where
  "child v name = name"

text \<open>
  Modelled from the spec: the read of the text of a file that \<^verbatim>\<open>child\<close> names, which
  fails with a not-found error when the file is absent.
\<close>

definition read_text :: "'fm Vault \<Rightarrow> string \<Rightarrow> error + string" where
  "read_text v p = (case files v p of None \<Rightarrow> Inl (FileNotFoundError p) | Some t \<Rightarrow> Inr t)"

section \<open>What the console receives\<close>

text \<open>
  Every command ends in \<^verbatim>\<open>STDOUT.print\<close> of a string or of a rich renderable. The
  renderables are kept as data: a tree with its label and, under each child label,
  the child's own children; a panel with its title and body; a table with its rows.
\<close>

datatype rendered =
  Text string
  | Tree_Out string "(string \<times> string list) list"
  | Panel_Out string string
  | Table_Out "(string \<times> string) list"

text \<open>\<^verbatim>\<open>"\n".join(xs)\<close>\<close>

fun join_lines :: "string list \<Rightarrow> string" where
  "join_lines [] = []"
| "join_lines [x] = x"
| "join_lines (x # y # ys) = x @ [CHR 0x0A] @ join_lines (y # ys)"

section \<open>The anki command\<close>

text \<open>
  \<^verbatim>\<open>
  for note in vault.notes():
      if "learn/anki" in note.tags:
          STDOUT.print(note.subpath())
  \<close>
  The loop threads the console output printed so far.
\<close>

fun anki_loop :: "'fm Note list \<Rightarrow> rendered list \<Rightarrow> rendered list" where
  "anki_loop [] out = out"
| "anki_loop (n # ns) out =
     (if has_tag n ''learn/anki''
      then anki_loop ns (out @ [Text (subpath n)])
      else anki_loop ns out)"

definition anki :: "'fm Vault \<Rightarrow> rendered list" where
  "anki v = anki_loop (vault_notes v) []"

section \<open>The validate-frontmatter command\<close>

text \<open>
  The command uses \<^verbatim>\<open>json.loads\<close>, and \<^verbatim>\<open>validator_for\<close>, \<^verbatim>\<open>check_schema\<close>,
  \<^verbatim>\<open>iter_errors\<close> and \<^verbatim>\<open>relevance\<close> of the jsonschema package, and \<^verbatim>\<open>str\<close> of a
  validation error. They are libraries outside the repository and are parameters:
  \<open>json_loads\<close> is \<open>None\<close> where \<^verbatim>\<open>json.loads\<close> raises, \<open>check_schema\<close> is false where
  \<^verbatim>\<open>Validator.check_schema\<close> raises \<^verbatim>\<open>SchemaError\<close>, \<open>iter_errors\<close> gives the errors in
  the order the validator yields them, and \<open>relevance\<close> is the sort key.
\<close>

record ('s, 'fm, 'e, 'k) validation_lib =
  json_loads :: "string \<Rightarrow> 's option"
  check_schema :: "'s \<Rightarrow> bool"
  iter_errors :: "'s \<Rightarrow> 'fm \<Rightarrow> 'e list"
  relevance :: "'e \<Rightarrow> 'k"
  error_str :: "'e \<Rightarrow> string"

text \<open>
  What the command does that can be observed, in order: a note is yielded by the
  traversal, a frontmatter is handed to the validator, something is printed.
\<close>

datatype 'fm event =
  Yielded string
  | Iter_Errors 'fm
  | Printed rendered

fun validated :: "'fm event list \<Rightarrow> 'fm list" where
  "validated [] = []"
| "validated (Iter_Errors fm # evs) = fm # validated evs"
| "validated (_ # evs) = validated evs"

fun printed :: "'fm event list \<Rightarrow> rendered list" where
  "printed [] = []"
| "printed (Printed r # evs) = r # printed evs"
| "printed (_ # evs) = printed evs"

fun yielded :: "'fm event list \<Rightarrow> string list" where
  "yielded [] = []"
| "yielded (Yielded p # evs) = p # yielded evs"
| "yielded (_ # evs) = yielded evs"

text \<open>
  \<^verbatim>\<open>
  for note in vault.notes():
      if note.awaiting_triage():
          continue
      errors = sorted(validator.iter_errors(note.frontmatter), key=relevance)
      if not errors:
          continue
      subtree = tree.add(note.subpath())
      for error in errors:
          subtree.add(str(error))
  \<close>
  Python's \<^verbatim>\<open>sorted\<close> is ascending in the key and stable, as \<open>sort_key\<close> is. The state
  of the loop is the events so far and the children of the tree.
\<close>

fun validate_notes ::
  "('s, 'fm, 'e, 'k::linorder) validation_lib \<Rightarrow> ('fm \<Rightarrow> bool) \<Rightarrow> 's \<Rightarrow> 'fm Note list \<Rightarrow>
   'fm event list \<times> (string \<times> string list) list \<Rightarrow>
   'fm event list \<times> (string \<times> string list) list" where
  "validate_notes L triage schema [] st = st"
| "validate_notes L triage schema (n # ns) (evs, tree) =
     (if awaiting_triage triage n
      then validate_notes L triage schema ns (evs @ [Yielded (subpath n)], tree)
      else
        let errors = sort_key (relevance L) (iter_errors L schema (frontmatter n));
            evs' = evs @ [Yielded (subpath n), Iter_Errors (frontmatter n)]
        in if errors = []
           then validate_notes L triage schema ns (evs', tree)
           else validate_notes L triage schema ns
                  (evs', tree @ [(subpath n, map (error_str L) errors)]))"

text \<open>
  \<^verbatim>\<open>
  schema = json.loads(vault.child("schema.json").read_text())
  Validator = validator_for(schema)
  Validator.check_schema(schema)
  validator = Validator(schema, format_checker=Validator.FORMAT_CHECKER)
  tree = Tree("[red]Invalid Notes[/red]")
  for note in vault.notes(): ...
  if tree.children:
      STDOUT.print(tree)
  else:
      STDOUT.print("All notes are [green]valid[/green].")
  \<close>
  An exception ends the command with the events up to it.
\<close>

definition validate_frontmatter ::
  "('s, 'fm, 'e, 'k::linorder) validation_lib \<Rightarrow> ('fm \<Rightarrow> bool) \<Rightarrow> 'fm Vault \<Rightarrow>
   'fm event list \<times> (error + unit)" where
  "validate_frontmatter L triage v =
     (case read_text v (child v ''schema.json'') of
        Inl e \<Rightarrow> ([], Inl e)
      | Inr text \<Rightarrow>
          (case json_loads L text of
             None \<Rightarrow> ([], Inl JSONDecodeError)
           | Some schema \<Rightarrow>
               if \<not> check_schema L schema then ([], Inl SchemaError)
               else
                 let (evs, tree) = validate_notes L triage schema (vault_notes v) ([], [])
                 in if tree \<noteq> []
                    then (evs @ [Printed (Tree_Out ''[red]Invalid Notes[/red]'' tree)], Inr ())
                    else (evs @ [Printed (Text ''All notes are [green]valid[/green].'')], Inr ())))"

section \<open>The todo command\<close>

text \<open>
  Modelled from the spec: the equality and hash of \<^verbatim>\<open>Note\<close>, which are those of the
  subpath alone. \<^verbatim>\<open>whole_note_todo\<close> is a Python set of notes, so adding a note to it
  changes nothing when a note with the same subpath is in it. The set is kept as the
  list of its elements; the order a Python set yields them in does not matter here,
  because the command sorts what it reads from it.
\<close>

definition set_add :: "'fm Note \<Rightarrow> 'fm Note list \<Rightarrow> 'fm Note list" where
  "set_add n S = (if subpath n \<in> set (map subpath S) then S else S @ [n])"

text \<open>
  \<^verbatim>\<open>
  for note in vault.notes():
      if "todo" in note.tags or "todo/now" in note.tags:
          whole_note_todo.add(note)
      tasks = [line for line in note.lines() if "#todo" in line]
      if tasks:
          panel = Panel("\n".join(tasks), box=box.SIMPLE)
          tasks_table.add_row(note.subpath(), panel)
  \<close>
  \<^verbatim>\<open>"#todo" in line\<close> holds when the line has \<^verbatim>\<open>#todo\<close> as a contiguous part, which is
  \<open>sublist\<close>. A row of the table is the subpath and the body of its panel.
\<close>

fun todo_loop ::
  "'fm Note list \<Rightarrow> 'fm Note list \<times> (string \<times> string) list \<Rightarrow>
   'fm Note list \<times> (string \<times> string) list" where
  "todo_loop [] st = st"
| "todo_loop (n # ns) (whole_note_todo, tasks_table) =
     (let whole_note_todo' =
            (if has_tag n ''todo'' \<or> has_tag n ''todo/now''
             then set_add n whole_note_todo else whole_note_todo);
          tasks = filter (\<lambda>line. sublist ''#todo'' line) (lines n);
          tasks_table' =
            (if tasks \<noteq> [] then tasks_table @ [(subpath n, join_lines tasks)]
             else tasks_table)
      in todo_loop ns (whole_note_todo', tasks_table'))"

text \<open>
  \<^verbatim>\<open>
  todo_panel = Panel(
      "\n".join(sorted(note.subpath() for note in whole_note_todo)),
      title="Notes with #todo tags", border_style="cyan")
  STDOUT.print(todo_panel)
  if tasks_table.row_count > 0:
      STDOUT.print(tasks_table)
  \<close>
  Python compares strings by code point, position by position, which on the bytes of
  their UTF-8 form is the lexicographic order of \<open>char list\<close>.
\<close>

definition todo_panel_lines :: "'fm Note list \<Rightarrow> string list" where
  "todo_panel_lines whole_note_todo = sort (map subpath whole_note_todo)"

definition todo :: "'fm Vault \<Rightarrow> rendered list" where
  "todo v =
     (let (whole_note_todo, tasks_table) = todo_loop (vault_notes v) ([], []);
          todo_panel = Panel_Out ''Notes with #todo tags''
                         (join_lines (todo_panel_lines whole_note_todo))
      in if length tasks_table > 0 then [todo_panel, Table_Out tasks_table]
         else [todo_panel])"

section \<open>The tags command\<close>

text \<open>
  A \<^verbatim>\<open>Counter\<close> is a dictionary from elements to counts that keeps the order in which
  its keys were first inserted: an association list. \<^verbatim>\<open>update\<close> with an iterable adds
  one to the count of each element it yields, a missing key counting as zero.
\<close>

fun counter_incr :: "'a \<Rightarrow> ('a \<times> nat) list \<Rightarrow> ('a \<times> nat) list" where
  "counter_incr x [] = [(x, 1)]"
| "counter_incr x ((y, c) # rest) =
     (if x = y then (y, c + 1) # rest else (y, c) # counter_incr x rest)"

definition counter_update :: "('a \<times> nat) list \<Rightarrow> 'a list \<Rightarrow> ('a \<times> nat) list" where
  "counter_update counter xs = foldl (\<lambda>c x. counter_incr x c) counter xs"

text \<open>
  \<^verbatim>\<open>most_common()\<close> is \<^verbatim>\<open>sorted(self.items(), key=itemgetter(1), reverse=True)\<close>: the
  counts descend and, the sort being stable also when reversed, items of equal count
  keep their order. That is the reverse of the ascending stable sort of the reversed
  list.
\<close>

definition most_common :: "('a \<times> nat) list \<Rightarrow> ('a \<times> nat) list" where
  "most_common counter = rev (sort_key snd (rev counter))"

text \<open>\<^verbatim>\<open>str(count)\<close> of a count: its decimal digits.\<close>

definition digit_char :: "nat \<Rightarrow> char" where
  "digit_char d = ''0123456789'' ! d"

function str_nat :: "nat \<Rightarrow> string" where
  "str_nat n = (if n < 10 then [digit_char n] else str_nat (n div 10) @ [digit_char (n mod 10)])"
  by pat_completeness auto
termination
  by (relation "measure (\<lambda>n. n)") auto

text \<open>
  \<^verbatim>\<open>
  tags = Counter()
  for note in vault.notes():
      tags.update(note.tags)
  ...
  for tag, count in tags.most_common():
      table.add_row(tag, str(count))
  STDOUT.print(table)
  \<close>
\<close>

fun tags_loop :: "'fm Note list \<Rightarrow> (string \<times> nat) list \<Rightarrow> (string \<times> nat) list" where
  "tags_loop [] counter = counter"
| "tags_loop (n # ns) counter =
     tags_loop ns (counter_update counter (list_of_dlist (tags n)))"

definition tags_command :: "'fm Vault \<Rightarrow> rendered list" where
  "tags_command v =
     [Table_Out (map (\<lambda>(tag, count). (tag, str_nat count))
                   (most_common (tags_loop (vault_notes v) [])))]"

section \<open>The note parser\<close>

text \<open>
  Modelled from the spec: the hashtag grammar of the note parser. A tag is a \<^verbatim>\<open>#\<close> that is
  not preceded by a word character and is followed by one or more characters of
  \<^verbatim>\<open>[A-Za-z0-9_/-]\<close>; the tag is the longest such run, without the \<^verbatim>\<open>#\<close>. The scan goes
  over the whole raw text and remembers whether the character before is a word
  character.
\<close>

definition is_word_char :: "char \<Rightarrow> bool" where
  "is_word_char c =
     ((CHR ''A'' \<le> c \<and> c \<le> CHR ''Z'') \<or> (CHR ''a'' \<le> c \<and> c \<le> CHR ''z'') \<or>
      (CHR ''0'' \<le> c \<and> c \<le> CHR ''9'') \<or> c = CHR ''_'')"

text \<open>Modelled from the spec: the characters of a tag, \<^verbatim>\<open>[A-Za-z0-9_/-]\<close>.\<close>

definition is_tag_char :: "char \<Rightarrow> bool" where
  "is_tag_char c = (is_word_char c \<or> c = CHR ''/'' \<or> c = CHR ''-'')"

text \<open>
  Modelled from the spec: the scan for tags. \<open>after_word\<close> tells whether the character
  before the text is a word character.
\<close>

function hashtags :: "bool \<Rightarrow> string \<Rightarrow> string list" where
  "hashtags after_word [] = []"
| "hashtags after_word (c # cs) =
     (if c = CHR ''#'' \<and> \<not> after_word \<and> takeWhile is_tag_char cs \<noteq> []
      then takeWhile is_tag_char cs #
           hashtags (is_word_char (last (takeWhile is_tag_char cs))) (dropWhile is_tag_char cs)
      else hashtags (is_word_char c) cs)"
  by pat_completeness auto
termination
  by (relation "measure (\<lambda>(after_word, text). length text)")
     (auto simp: length_dropWhile_le less_Suc_eq_le)

text \<open>
  Modelled from the spec: the split of a text into lines, for any line-ending
  convention, nothing removed but the line terminators.
\<close>

fun splitlines_from :: "string \<Rightarrow> string \<Rightarrow> string list" where
  "splitlines_from line [] = (if line = [] then [] else [line])"
| "splitlines_from line (c # cs) =
     (if c = CHR 0x0A then line # splitlines_from [] cs
      else if c = CHR 0x0D then
        (case cs of
           d # ds \<Rightarrow> if d = CHR 0x0A then line # splitlines_from [] ds
                     else line # splitlines_from [] cs
         | [] \<Rightarrow> line # splitlines_from [] cs)
      else splitlines_from (line @ [c]) cs)"

text \<open>Modelled from the spec: the lines of a whole text.\<close>

definition splitlines :: "string \<Rightarrow> string list" where
  "splitlines raw = splitlines_from [] raw"

text \<open>
  The parser of the structured text inside the fenced block is a library outside the
  repository, a parameter: it fails, or gives a value that is not a mapping, or gives a
  mapping, kept as the list of its keys and values.
\<close>

datatype 'v block_result =
  Parse_Error
  | Not_A_Mapping
  | Parsed_Mapping "(string \<times> 'v) list"

text \<open>
  Modelled from the spec: \<^verbatim>\<open>parse(rawText) -> (frontmatter, lines, tags)\<close> of the note
  parser, which is not among the sources. The block is recognised when the first line
  is the marker line \<open>fence\<close> and the marker occurs again later; the lines between are
  the block, those after the closing marker are the body. With no such block, or with a
  block that does not parse into a mapping, the frontmatter is empty and all lines are
  body lines. The function has no failing branch, as the spec demands.
\<close>

definition parse ::
  "string \<Rightarrow> (string list \<Rightarrow> 'v block_result) \<Rightarrow> string \<Rightarrow>
   (string \<times> 'v) list \<times> string list \<times> string dlist" where
  "parse fence parse_block raw =
     (let all_lines = splitlines raw;
          found = dlist_of_list (hashtags False raw)
      in case all_lines of
           [] \<Rightarrow> ([], [], found)
         | first # rest \<Rightarrow>
             if first = fence \<and> fence \<in> set rest
             then (case parse_block (takeWhile (\<lambda>l. l \<noteq> fence) rest) of
                     Parsed_Mapping m \<Rightarrow> (m, tl (dropWhile (\<lambda>l. l \<noteq> fence) rest), found)
                   | _ \<Rightarrow> ([], all_lines, found))
             else ([], all_lines, found))"

text \<open>
  Modelled from the spec: \<^verbatim>\<open>Vault.notes()\<close>. \<open>tree\<close> lists the readable files under the
  root in traversal order, each with its path relative to the root and its text; the
  files with the extension of notes are parsed, the others are skipped.
\<close>

definition read_notes ::
  "string \<Rightarrow> string \<Rightarrow> (string list \<Rightarrow> 'v block_result) \<Rightarrow> (string \<times> string) list \<Rightarrow>
   (string \<times> 'v) list Note list" where
  "read_notes extension fence parse_block tree =
     map (\<lambda>(path, raw).
            case parse fence parse_block raw of
              (fm, body, found) \<Rightarrow>
                \<lparr>subpath = path, frontmatter = fm, tags = found, lines = body\<rparr>)
         (filter (\<lambda>(path, raw). suffix extension path) tree)"

text \<open>The count a counter holds for an element, zero for a missing key.\<close>

definition count_of :: "('a \<times> nat) list \<Rightarrow> 'a \<Rightarrow> nat" where
  "count_of counter x = (case map_of counter x of None \<Rightarrow> 0 | Some c \<Rightarrow> c)"

text \<open>What one note adds to the events and to the tree, for the closed form of the loop.\<close>

definition note_events :: "('fm \<Rightarrow> bool) \<Rightarrow> 'fm Note \<Rightarrow> 'fm event list" where
  "note_events triage n =
     (if awaiting_triage triage n then [Yielded (subpath n)]
      else [Yielded (subpath n), Iter_Errors (frontmatter n)])"

definition note_entry ::
  "('s, 'fm, 'e, 'k::linorder) validation_lib \<Rightarrow> ('fm \<Rightarrow> bool) \<Rightarrow> 's \<Rightarrow> 'fm Note \<Rightarrow>
   (string \<times> string list) list" where
  "note_entry L triage schema n =
     (if awaiting_triage triage n then []
      else if iter_errors L schema (frontmatter n) = [] then []
      else [(subpath n,
             map (error_str L) (sort_key (relevance L) (iter_errors L schema (frontmatter n))))])"

text \<open>
  A small instance of the parameters, for evaluating the command on concrete vaults:
  frontmatter is a list of key and value pairs, an error is the path of the offending
  value and a message, the schema requires a \<^verbatim>\<open>title\<close> and restricts \<^verbatim>\<open>status\<close>, and the key of
  an error is the negated length of its path, the leading component of the key that
  jsonschema computes. A note awaits triage when its frontmatter says so.
\<close>

definition example_lib ::
  "(string, (string \<times> string) list, string list \<times> string, int) validation_lib" where
  "example_lib =
     \<lparr>json_loads = (\<lambda>t. if t = ''not json'' then None else Some t),
      check_schema = (\<lambda>s. s \<noteq> ''{type: 5}''),
      iter_errors = (\<lambda>s fm.
         (if map_of fm ''title'' = None then [([], ''title is a required property'')] else []) @
         (case map_of fm ''status'' of
            None \<Rightarrow> []
          | Some x \<Rightarrow>
              if x \<in> set [''todo'', ''doing'', ''done''] then []
              else [([''status''], x @ '' is not one of todo, doing, done'')])),
      relevance = (\<lambda>e. - int (length (fst e))),
      error_str = snd\<rparr>"

definition example_triage :: "(string \<times> string) list \<Rightarrow> bool" where
  "example_triage fm = (map_of fm ''triage'' = Some ''yes'')"

text \<open>
  A vault of four notes with a schema file. The first note has two validation errors,
  the second awaits triage, the third and fourth are valid.
\<close>

definition example_note_b :: "(string \<times> string) list Note" where
  "example_note_b =
     \<lparr>subpath = ''b/x.md'', frontmatter = [(''status'', ''maybe'')],
      tags = dlist_of_list [''learn/anki'', ''todo''],
      lines = [''Remember the #todo item'', ''plain line'', ''also #todo/now here'']\<rparr>"

definition example_note_inbox :: "(string \<times> string) list Note" where
  "example_note_inbox =
     \<lparr>subpath = ''inbox/new.md'', frontmatter = [(''triage'', ''yes''), (''status'', ''unknown'')],
      tags = dlist_of_list [''todo/now''],
      lines = [''nothing'']\<rparr>"

definition example_note_a :: "(string \<times> string) list Note" where
  "example_note_a =
     \<lparr>subpath = ''a/x.md'', frontmatter = [(''title'', ''A''), (''status'', ''done'')],
      tags = dlist_of_list [''todo'', ''todo/now'', ''learn/anki''],
      lines = [''#todos are many'']\<rparr>"

definition example_note_c :: "(string \<times> string) list Note" where
  "example_note_c =
     \<lparr>subpath = ''c/y.md'', frontmatter = [(''title'', ''C'')],
      tags = dlist_of_list [''todos'', ''learn''],
      lines = [''no marker'']\<rparr>"

definition example_notes :: "(string \<times> string) list Note list" where
  "example_notes = [example_note_b, example_note_inbox, example_note_a, example_note_c]"

definition example_vault :: "(string \<times> string) list Vault" where
  "example_vault =
     \<lparr>vault_notes = example_notes, files = [''schema.json'' \<mapsto> ''{status: enum}'']\<rparr>"

text \<open>A block parser that knows one block, and a tree of four files.\<close>

definition example_parse_block :: "string list \<Rightarrow> string block_result" where
  "example_parse_block block =
     (if block = [''status: done''] then Parsed_Mapping [(''status'', ''done'')]
      else if block = [''- item''] then Not_A_Mapping
      else Parse_Error)"

definition example_tree :: "(string \<times> string) list" where
  "example_tree =
     [(''a/x.md'', join_lines [''---'', ''status: done'', ''---'', ''Remember the #todo item'']),
      (''b/x.md'', join_lines [''---'', ''status: [unclosed'', ''---'', ''body #learn/anki'']),
      (''img/p.png'', ''binary''),
      (''c/y.md'', ''#todo/now check this'')]"

section \<open>Properties of the anki command\<close>

lemma anki_loop_eq:
  "anki_loop ns out =
     out @ map (\<lambda>n. Text (subpath n)) (filter (\<lambda>n. has_tag n ''learn/anki'') ns)"
  by (induction ns arbitrary: out) simp_all

text \<open>
  Claim C4. The anki command prints, in traversal order, the subpath of exactly the
  notes whose tag set holds the string \<^verbatim>\<open>learn/anki\<close> itself: every such note gives one
  printed line, and a note without that exact tag gives none. Two tagged notes at
  \<^verbatim>\<open>a/x.md\<close> and \<^verbatim>\<open>b/x.md\<close> are therefore both printed.
\<close>

theorem anki_prints_exactly_tagged:
  "anki v = map (\<lambda>n. Text (subpath n)) (filter (\<lambda>n. has_tag n ''learn/anki'') (vault_notes v))
   \<and> (Text s \<in> set (anki v) \<longleftrightarrow>
        (\<exists>n \<in> set (vault_notes v). subpath n = s \<and> ''learn/anki'' \<in> set (list_of_dlist (tags n))))"
  by (auto simp: anki_def anki_loop_eq has_tag_def)

theorem anki_prints_exactly_tagged_witness:
  "anki example_vault = [Text ''b/x.md'', Text ''a/x.md''] \<and>
   Text ''c/y.md'' \<notin> set (anki example_vault)"
  using anki_prints_exactly_tagged [of example_vault "''c/y.md''"]
  by (simp add: has_tag_def example_vault_def example_notes_def example_note_b_def
      example_note_inbox_def example_note_a_def example_note_c_def)

section \<open>Properties of the validate-frontmatter command\<close>

lemma sort_key_Nil_iff: "sort_key f xs = [] \<longleftrightarrow> xs = []"
  by (metis length_sort length_0_conv)

lemma validate_notes_eq:
  "validate_notes L triage schema ns (evs, tree) =
     (evs @ concat (map (note_events triage) ns),
      tree @ concat (map (note_entry L triage schema) ns))"
  by (induction ns arbitrary: evs tree)
     (simp_all add: note_events_def note_entry_def Let_def sort_key_Nil_iff)

lemma validated_append: "validated (xs @ ys) = validated xs @ validated ys"
  by (induction xs rule: validated.induct) simp_all

lemma printed_append: "printed (xs @ ys) = printed xs @ printed ys"
  by (induction xs rule: printed.induct) simp_all

lemma yielded_append: "yielded (xs @ ys) = yielded xs @ yielded ys"
  by (induction xs rule: yielded.induct) simp_all

lemma validated_note_events:
  "validated (concat (map (note_events triage) ns)) =
     map frontmatter (filter (\<lambda>n. \<not> awaiting_triage triage n) ns)"
  by (induction ns) (simp_all add: note_events_def validated_append)

lemma printed_note_events: "printed (concat (map (note_events triage) ns)) = []"
  by (induction ns) (simp_all add: note_events_def printed_append)

lemma yielded_note_events: "yielded (concat (map (note_events triage) ns)) = map subpath ns"
  by (induction ns) (simp_all add: note_events_def yielded_append)

lemma sorted_key_precedes:
  assumes "sorted (map f es)" "i < length es" "j < length es" "f (es ! i) < f (es ! j)"
  shows "i < j"
proof (rule ccontr)
  assume "\<not> i < j"
  then have "j \<le> i" by simp
  with assms(1,2) have "map f es ! j \<le> map f es ! i"
    by (simp add: sorted_iff_nth_mono del: nth_map)
  with assms show False by simp
qed


lemma validate_frontmatter_ok:
  assumes "files v ''schema.json'' = Some raw" "json_loads L raw = Some schema"
    "check_schema L schema"
  shows "validate_frontmatter L triage v =
    (concat (map (note_events triage) (vault_notes v)) @
       [Printed (if concat (map (note_entry L triage schema) (vault_notes v)) \<noteq> []
                 then Tree_Out ''[red]Invalid Notes[/red]''
                        (concat (map (note_entry L triage schema) (vault_notes v)))
                 else Text ''All notes are [green]valid[/green].'')],
     Inr ())"
  using assms
  by (simp add: validate_frontmatter_def read_text_def child_def validate_notes_eq)



text \<open>
  Claim C1. When the schema loads and passes its check, every note that is validated
  (it does not await triage) and has at least one validation error gets an entry in
  the printed tree, under its subpath, whose children are the strings of its errors
  sorted by the relevance key: the same errors, in ascending order of the key, so an
  error with a smaller key comes before every error with a greater key.
\<close>

theorem validate_frontmatter_errors_sorted:
  assumes "files v ''schema.json'' = Some raw" and "json_loads L raw = Some schema"
    and "check_schema L schema"
    and "n \<in> set (vault_notes v)" and "\<not> awaiting_triage triage n"
    and "iter_errors L schema (frontmatter n) \<noteq> []"
  shows "\<exists>evs tree es.
     validate_frontmatter L triage v = (evs, Inr ()) \<and>
     printed evs = [Tree_Out ''[red]Invalid Notes[/red]'' tree] \<and>
     (subpath n, map (error_str L) es) \<in> set tree \<and>
     es = sort_key (relevance L) (iter_errors L schema (frontmatter n)) \<and>
     mset es = mset (iter_errors L schema (frontmatter n)) \<and>
     sorted (map (relevance L) es) \<and>
     (\<forall>i j. i < length es \<and> j < length es \<and> relevance L (es ! i) < relevance L (es ! j)
        \<longrightarrow> i < j)"
proof -
  let ?es = "sort_key (relevance L) (iter_errors L schema (frontmatter n))"
  let ?tree = "concat (map (note_entry L triage schema) (vault_notes v))"
  have entry: "(subpath n, map (error_str L) ?es) \<in> set ?tree"
    using assms(4-6) by (auto simp: note_entry_def)
  have ne: "?tree \<noteq> []"
  proof
    assume "?tree = []"
    with entry show False by (simp only: set_simps empty_iff)
  qed
  have run: "validate_frontmatter L triage v =
      (concat (map (note_events triage) (vault_notes v)) @
         [Printed (Tree_Out ''[red]Invalid Notes[/red]'' ?tree)], Inr ())"
    using validate_frontmatter_ok [OF assms(1-3), of triage] ne by simp
  have pr: "printed (concat (map (note_events triage) (vault_notes v)) @
         [Printed (Tree_Out ''[red]Invalid Notes[/red]'' ?tree)]) =
       [Tree_Out ''[red]Invalid Notes[/red]'' ?tree]"
    by (simp add: printed_append printed_note_events)
  have srt: "sorted (map (relevance L) ?es)" by simp
  have prec: "\<forall>i j. i < length ?es \<and> j < length ?es \<and>
       relevance L (?es ! i) < relevance L (?es ! j) \<longrightarrow> i < j"
    using sorted_key_precedes [OF srt] by blast
  show ?thesis
  proof (intro exI conjI)
    show "validate_frontmatter L triage v =
      (concat (map (note_events triage) (vault_notes v)) @
         [Printed (Tree_Out ''[red]Invalid Notes[/red]'' ?tree)], Inr ())"
      by (rule run)
    show "printed (concat (map (note_events triage) (vault_notes v)) @
         [Printed (Tree_Out ''[red]Invalid Notes[/red]'' ?tree)]) =
       [Tree_Out ''[red]Invalid Notes[/red]'' ?tree]"
      by (rule pr)
    show "(subpath n, map (error_str L) ?es) \<in> set ?tree" by (rule entry)
    show "?es = sort_key (relevance L) (iter_errors L schema (frontmatter n))" by (rule refl)
    show "mset ?es = mset (iter_errors L schema (frontmatter n))" by (rule mset_sort)
    show "sorted (map (relevance L) ?es)" by (rule srt)
    show "\<forall>i j. i < length ?es \<and> j < length ?es \<and>
       relevance L (?es ! i) < relevance L (?es ! j) \<longrightarrow> i < j" by (rule prec)
  qed
qed

theorem validate_frontmatter_errors_sorted_witness:
  "files example_vault ''schema.json'' = Some ''{status: enum}'' \<and>
   json_loads example_lib ''{status: enum}'' = Some ''{status: enum}'' \<and>
   check_schema example_lib ''{status: enum}'' \<and>
   example_note_b \<in> set (vault_notes example_vault) \<and>
   \<not> awaiting_triage example_triage example_note_b \<and>
   iter_errors example_lib ''{status: enum}'' (frontmatter example_note_b) =
     [([], ''title is a required property''),
      ([''status''], ''maybe is not one of todo, doing, done'')] \<and>
   printed (fst (validate_frontmatter example_lib example_triage example_vault)) =
     [Tree_Out ''[red]Invalid Notes[/red]''
        [(''b/x.md'', [''maybe is not one of todo, doing, done'',
                       ''title is a required property''])]]"
  using validate_frontmatter_errors_sorted
    [where v = example_vault and raw = "''{status: enum}''" and L = example_lib
       and schema = "''{status: enum}''" and n = example_note_b and triage = example_triage]
  by (simp add: validate_frontmatter_def read_text_def child_def awaiting_triage_def
      example_vault_def example_notes_def example_note_b_def
      example_note_inbox_def example_note_a_def example_note_c_def example_lib_def
      example_triage_def)

text \<open>
  Claim C2. When \<^verbatim>\<open>schema.json\<close> is read and decoded but the schema fails its own
  check, the command ends with \<^verbatim>\<open>SchemaError\<close> before the traversal starts: no note
  is yielded, no frontmatter reaches the validator, nothing is printed.
\<close>

theorem validate_frontmatter_invalid_schema:
  assumes "files v ''schema.json'' = Some raw" and "json_loads L raw = Some schema"
    and "\<not> check_schema L schema"
  shows "validate_frontmatter L triage v = ([], Inl SchemaError) \<and>
         yielded (fst (validate_frontmatter L triage v)) = [] \<and>
         validated (fst (validate_frontmatter L triage v)) = [] \<and>
         printed (fst (validate_frontmatter L triage v)) = []"
  using assms by (simp add: validate_frontmatter_def read_text_def child_def)

theorem validate_frontmatter_invalid_schema_witness:
  "files (example_vault\<lparr>files := [''schema.json'' \<mapsto> ''{type: 5}'']\<rparr>) ''schema.json''
     = Some ''{type: 5}'' \<and>
   json_loads example_lib ''{type: 5}'' = Some ''{type: 5}'' \<and>
   \<not> check_schema example_lib ''{type: 5}'' \<and>
   validate_frontmatter example_lib example_triage
     (example_vault\<lparr>files := [''schema.json'' \<mapsto> ''{type: 5}'']\<rparr>) = ([], Inl SchemaError)"
  using validate_frontmatter_invalid_schema
    [where v = "example_vault\<lparr>files := [''schema.json'' \<mapsto> ''{type: 5}'']\<rparr>"
       and raw = "''{type: 5}''" and L = example_lib and schema = "''{type: 5}''"
       and triage = example_triage]
  by (simp add: example_lib_def)

text \<open>
  Claim C3. When the vault has no \<^verbatim>\<open>schema.json\<close>, reading it fails with a
  file-not-found error and the command ends there: neither the tree of invalid notes
  nor the all-valid message is printed.
\<close>

theorem validate_frontmatter_missing_schema:
  assumes "files v ''schema.json'' = None"
  shows "validate_frontmatter L triage v = ([], Inl (FileNotFoundError ''schema.json'')) \<and>
         printed (fst (validate_frontmatter L triage v)) = []"
  using assms by (simp add: validate_frontmatter_def read_text_def child_def)

theorem validate_frontmatter_missing_schema_witness:
  "files (example_vault\<lparr>files := Map.empty\<rparr>) ''schema.json'' = None \<and>
   validate_frontmatter example_lib example_triage (example_vault\<lparr>files := Map.empty\<rparr>)
     = ([], Inl (FileNotFoundError ''schema.json''))"
  using validate_frontmatter_missing_schema
    [where v = "example_vault\<lparr>files := Map.empty\<rparr>" and L = example_lib
       and triage = example_triage]
  by simp

text \<open>
  Claim C8. A note that awaits triage is skipped before validation: the command prints
  the same with the note as without it, whatever its frontmatter holds, the validator
  receives the frontmatter of the other notes only, and a printed tree has the entries
  of the other notes only.
\<close>

theorem validate_frontmatter_skips_triage:
  assumes "files v ''schema.json'' = Some raw" and "json_loads L raw = Some schema"
    and "check_schema L schema"
    and "awaiting_triage triage n"
  shows "printed (fst (validate_frontmatter L triage (v\<lparr>vault_notes := ns1 @ n # ns2\<rparr>))) =
         printed (fst (validate_frontmatter L triage (v\<lparr>vault_notes := ns1 @ ns2\<rparr>))) \<and>
         validated (fst (validate_frontmatter L triage (v\<lparr>vault_notes := ns1 @ n # ns2\<rparr>))) =
         map frontmatter (filter (\<lambda>m. \<not> awaiting_triage triage m) (ns1 @ ns2)) \<and>
         (\<forall>tree. printed (fst (validate_frontmatter L triage (v\<lparr>vault_notes := ns1 @ n # ns2\<rparr>)))
                   = [Tree_Out ''[red]Invalid Notes[/red]'' tree] \<longrightarrow>
            tree = concat (map (note_entry L triage schema) (ns1 @ ns2)))"
proof -
  have f: "files (v\<lparr>vault_notes := ns\<rparr>) ''schema.json'' = Some raw" for ns
    using assms(1) by simp
  have e: "note_entry L triage schema n = []"
    using assms(4) by (simp add: note_entry_def)
  have ev: "printed (note_events triage n) = []" "validated (note_events triage n) = []"
    using assms(4) by (simp_all add: note_events_def)
  show ?thesis
    using assms(4)
    by (simp add: validate_frontmatter_ok [OF f assms(2,3)] e ev printed_append
        validated_append printed_note_events validated_note_events)
qed

theorem validate_frontmatter_skips_triage_witness:
  "awaiting_triage example_triage example_note_inbox \<and>
   iter_errors example_lib ''{status: enum}'' (frontmatter example_note_inbox) \<noteq> [] \<and>
   printed (fst (validate_frontmatter example_lib example_triage
      (example_vault\<lparr>vault_notes := [example_note_b] @ example_note_inbox # [example_note_a, example_note_c]\<rparr>))) =
   printed (fst (validate_frontmatter example_lib example_triage
      (example_vault\<lparr>vault_notes := [example_note_b] @ [example_note_a, example_note_c]\<rparr>))) \<and>
   validated (fst (validate_frontmatter example_lib example_triage
      (example_vault\<lparr>vault_notes := [example_note_b] @ example_note_inbox # [example_note_a, example_note_c]\<rparr>))) =
   [[(''status'', ''maybe'')], [(''title'', ''A''), (''status'', ''done'')], [(''title'', ''C'')]]"
  using validate_frontmatter_skips_triage
    [where v = example_vault and raw = "''{status: enum}''" and L = example_lib
       and schema = "''{status: enum}''" and n = example_note_inbox and triage = example_triage
       and ?ns1.0 = "[example_note_b]" and ?ns2.0 = "[example_note_a, example_note_c]"]
  by (simp add: awaiting_triage_def
      example_vault_def example_notes_def example_note_b_def
      example_note_inbox_def example_note_a_def example_note_c_def example_lib_def
      example_triage_def)

section \<open>Properties of the todo command\<close>

lemma set_add_subpaths:
  "set (map subpath (set_add n S)) = insert (subpath n) (set (map subpath S))"
  by (auto simp: set_add_def)

lemma set_add_distinct:
  "distinct (map subpath S) \<Longrightarrow> distinct (map subpath (set_add n S))"
  by (auto simp: set_add_def)

lemma todo_loop_whole_set:
  "set (map subpath (fst (todo_loop ns (W, T)))) =
     set (map subpath W) \<union> subpath ` {n \<in> set ns. has_tag n ''todo'' \<or> has_tag n ''todo/now''}"
proof (induction ns arbitrary: W T)
  case Nil
  then show ?case by simp
next
  case (Cons n ns)
  show ?case
    by (cases "has_tag n ''todo'' \<or> has_tag n ''todo/now''")
       (auto simp: Let_def Cons.IH set_add_subpaths simp del: set_map)
qed

lemma todo_loop_whole_distinct:
  "distinct (map subpath W) \<Longrightarrow> distinct (map subpath (fst (todo_loop ns (W, T))))"
proof (induction ns arbitrary: W T)
  case Nil
  then show ?case by simp
next
  case (Cons n ns)
  then show ?case
    by (simp add: Let_def set_add_distinct del: distinct_map)
qed

lemma todo_loop_table:
  "snd (todo_loop ns (W, T)) =
     T @ map (\<lambda>n. (subpath n, join_lines (filter (\<lambda>line. sublist ''#todo'' line) (lines n))))
           (filter (\<lambda>n. \<exists>line \<in> set (lines n). sublist ''#todo'' line) ns)"
proof (induction ns arbitrary: W T)
  case Nil
  then show ?case by simp
next
  case (Cons n ns)
  have "(filter (\<lambda>line. sublist ''#todo'' line) (lines n) \<noteq> []) =
        (\<exists>line \<in> set (lines n). sublist ''#todo'' line)"
    by (simp add: filter_empty_conv)
  then show ?case
    by (simp add: Let_def Cons.IH)
qed

lemma todo_panel_lines_props:
  "sorted (todo_panel_lines (fst (todo_loop ns ([], [])))) \<and>
   distinct (todo_panel_lines (fst (todo_loop ns ([], [])))) \<and>
   set (todo_panel_lines (fst (todo_loop ns ([], [])))) =
     subpath ` {n \<in> set ns. has_tag n ''todo'' \<or> has_tag n ''todo/now''}"
proof -
  have d: "distinct (map subpath (fst (todo_loop ns ([], []))))"
    by (rule todo_loop_whole_distinct) simp
  have s: "set (map subpath (fst (todo_loop ns ([], [])))) =
     subpath ` {n \<in> set ns. has_tag n ''todo'' \<or> has_tag n ''todo/now''}"
    using todo_loop_whole_set [of ns "[]" "[]"] by simp
  show ?thesis
    unfolding todo_panel_lines_def using d s by (simp del: set_map distinct_map)
qed

lemma todo_eq:
  "todo v =
     (if snd (todo_loop (vault_notes v) ([], [])) = []
      then [Panel_Out ''Notes with #todo tags''
              (join_lines (todo_panel_lines (fst (todo_loop (vault_notes v) ([], [])))))]
      else [Panel_Out ''Notes with #todo tags''
              (join_lines (todo_panel_lines (fst (todo_loop (vault_notes v) ([], []))))),
            Table_Out (snd (todo_loop (vault_notes v) ([], [])))])"
  by (simp add: todo_def split: prod.splits)

text \<open>
  Claim C5. The panel titled \<^verbatim>\<open>Notes with #todo tags\<close> is printed first, and its body
  joins lines of which each is the subpath of a note whose tag set holds the string
  \<^verbatim>\<open>todo\<close> or the string \<^verbatim>\<open>todo/now\<close> itself; every such subpath is among them, and no
  subpath is there twice, also for a note that carries both tags.
\<close>

theorem todo_panel_exact_tags:
  "\<exists>ls rest. todo v = Panel_Out ''Notes with #todo tags'' (join_lines ls) # rest \<and>
     distinct ls \<and>
     (\<forall>s. s \<in> set ls \<longleftrightarrow>
        (\<exists>n \<in> set (vault_notes v). subpath n = s \<and>
           (''todo'' \<in> set (list_of_dlist (tags n)) \<or>
            ''todo/now'' \<in> set (list_of_dlist (tags n)))))"
proof -
  let ?ls = "todo_panel_lines (fst (todo_loop (vault_notes v) ([], [])))"
  have "\<exists>rest. todo v = Panel_Out ''Notes with #todo tags'' (join_lines ?ls) # rest"
    by (simp add: todo_eq)
  moreover have "distinct ?ls"
    using todo_panel_lines_props [of "vault_notes v"] by blast
  moreover have "\<forall>s. s \<in> set ?ls \<longleftrightarrow>
        (\<exists>n \<in> set (vault_notes v). subpath n = s \<and>
           (''todo'' \<in> set (list_of_dlist (tags n)) \<or>
            ''todo/now'' \<in> set (list_of_dlist (tags n))))"
    using todo_panel_lines_props [of "vault_notes v"] by (auto simp: has_tag_def)
  ultimately show ?thesis by blast
qed

theorem todo_panel_exact_tags_witness:
  "todo example_vault =
     [Panel_Out ''Notes with #todo tags''
        (join_lines [''a/x.md'', ''b/x.md'', ''inbox/new.md'']),
      Table_Out [(''b/x.md'', join_lines [''Remember the #todo item'', ''also #todo/now here'']),
                 (''a/x.md'', ''#todos are many'')]]"
  using todo_panel_exact_tags [of example_vault]
  by (simp add: todo_def has_tag_def set_add_def todo_panel_lines_def sublist_Cons_right
      example_vault_def example_notes_def example_note_b_def
      example_note_inbox_def example_note_a_def example_note_c_def)

text \<open>
  Claim C6. The body of the panel joins the subpaths of the notes tagged \<^verbatim>\<open>todo\<close> or
  \<^verbatim>\<open>todo/now\<close>, each once, in ascending lexicographic order: the lines are the sorted
  list of these subpaths without repetition. Two traversals that yield the same notes
  in different orders therefore give the same panel.
\<close>

theorem todo_panel_order_independent:
  assumes "mset (vault_notes v1) = mset (vault_notes v2)"
  shows "hd (todo v1) = hd (todo v2) \<and>
         hd (todo v1) =
           Panel_Out ''Notes with #todo tags''
             (join_lines (sort (remdups (map subpath
                (filter (\<lambda>n. ''todo'' \<in> set (list_of_dlist (tags n)) \<or>
                              ''todo/now'' \<in> set (list_of_dlist (tags n)))
                   (vault_notes v1)))))) \<and>
         (\<exists>ls. hd (todo v1) = Panel_Out ''Notes with #todo tags'' (join_lines ls) \<and>
               sorted ls \<and> distinct ls \<and>
               set ls = subpath ` {n \<in> set (vault_notes v1).
                           ''todo'' \<in> set (list_of_dlist (tags n)) \<or>
                           ''todo/now'' \<in> set (list_of_dlist (tags n))})"
proof -
  let ?tagged = "\<lambda>n. ''todo'' \<in> set (list_of_dlist (tags n)) \<or>
                     ''todo/now'' \<in> set (list_of_dlist (tags n))"
  let ?l1 = "todo_panel_lines (fst (todo_loop (vault_notes v1) ([], [])))"
  let ?l2 = "todo_panel_lines (fst (todo_loop (vault_notes v2) ([], [])))"
  let ?s1 = "sort (remdups (map subpath (filter ?tagged (vault_notes v1))))"
  have p1: "sorted ?l1" "distinct ?l1"
    "set ?l1 = subpath ` {n \<in> set (vault_notes v1). ?tagged n}"
    using todo_panel_lines_props [of "vault_notes v1"] by (simp_all add: has_tag_def)
  have p2: "sorted ?l2" "distinct ?l2"
    "set ?l2 = subpath ` {n \<in> set (vault_notes v2). ?tagged n}"
    using todo_panel_lines_props [of "vault_notes v2"] by (simp_all add: has_tag_def)
  have "set (vault_notes v1) = set (vault_notes v2)"
    using assms by (rule mset_eq_setD)
  then have "set ?l1 = set ?l2"
    using p1(3) p2(3) by simp
  with p1(1) p1(2) p2(1) p2(2) have eq: "?l1 = ?l2"
    by (rule sorted_distinct_set_unique)
  have q: "set ?l1 = set ?s1"
    using p1(3) by auto
  have q1: "sorted ?s1" and q2: "distinct ?s1"
    by simp_all
  have s: "?l1 = ?s1"
    using p1(1) p1(2) q1 q2 q by (rule sorted_distinct_set_unique)
  have h: "hd (todo v) = Panel_Out ''Notes with #todo tags''
       (join_lines (todo_panel_lines (fst (todo_loop (vault_notes v) ([], [])))))" for v :: "'a Vault"
    by (simp add: todo_eq)
  have a: "hd (todo v1) = hd (todo v2)"
    using eq h by simp
  have b: "hd (todo v1) = Panel_Out ''Notes with #todo tags'' (join_lines ?s1)"
    using s h [of v1] by simp
  have c: "\<exists>ls. hd (todo v1) = Panel_Out ''Notes with #todo tags'' (join_lines ls) \<and>
               sorted ls \<and> distinct ls \<and>
               set ls = subpath ` {n \<in> set (vault_notes v1). ?tagged n}"
    using h [of v1] p1 by blast
  show ?thesis
    using a b c by (intro conjI)
qed

theorem todo_panel_order_independent_witness:
  "mset (vault_notes example_vault) =
     mset (vault_notes (example_vault\<lparr>vault_notes := rev example_notes\<rparr>)) \<and>
   hd (todo example_vault) = hd (todo (example_vault\<lparr>vault_notes := rev example_notes\<rparr>)) \<and>
   hd (todo (example_vault\<lparr>vault_notes := rev example_notes\<rparr>)) =
     Panel_Out ''Notes with #todo tags'' (join_lines [''a/x.md'', ''b/x.md'', ''inbox/new.md'']) \<and>
   sort (remdups (map subpath
      (filter (\<lambda>n. ''todo'' \<in> set (list_of_dlist (tags n)) \<or>
                    ''todo/now'' \<in> set (list_of_dlist (tags n)))
         (vault_notes example_vault)))) = [''a/x.md'', ''b/x.md'', ''inbox/new.md'']"
  using todo_panel_order_independent
    [of example_vault "example_vault\<lparr>vault_notes := rev example_notes\<rparr>"]
  by (simp add: todo_def has_tag_def set_add_def todo_panel_lines_def sublist_Cons_right
      example_vault_def example_notes_def example_note_b_def
      example_note_inbox_def example_note_a_def example_note_c_def)

lemma sublist_of_longer:
  assumes "sublist (xs @ ys) l"
  shows "sublist xs l"
proof -
  from assms obtain ps ss where "l = ps @ (xs @ ys) @ ss"
    unfolding sublist_def by blast
  then have "l = ps @ xs @ (ys @ ss)" by simp
  then show ?thesis unfolding sublist_def by blast
qed

text \<open>
  Claim C9. The tasks table has one row for each note with at least one line that
  contains \<^verbatim>\<open>#todo\<close>, in traversal order, and none for the other notes; the row holds
  the subpath and exactly the lines that contain \<^verbatim>\<open>#todo\<close>, in their order, joined by
  newlines. The table is printed only when it has a row. A line that contains
  \<^verbatim>\<open>#todo/now\<close> or \<^verbatim>\<open>#todos\<close> contains \<^verbatim>\<open>#todo\<close>.
\<close>

theorem todo_tasks_rows:
  "(\<exists>panel. todo v =
      (if filter (\<lambda>n. \<exists>line \<in> set (lines n). sublist ''#todo'' line) (vault_notes v) = []
       then [panel]
       else [panel,
             Table_Out (map (\<lambda>n. (subpath n,
                          join_lines (filter (\<lambda>line. sublist ''#todo'' line) (lines n))))
                        (filter (\<lambda>n. \<exists>line \<in> set (lines n). sublist ''#todo'' line)
                           (vault_notes v)))])) \<and>
   (sublist ''#todo/now'' l \<longrightarrow> sublist ''#todo'' l) \<and>
   (sublist ''#todos'' l \<longrightarrow> sublist ''#todo'' l)"
proof -
  have 1: "sublist ''#todo/now'' l \<longrightarrow> sublist ''#todo'' l"
    using sublist_of_longer [of "''#todo''" "''/now''" l] by simp
  have 2: "sublist ''#todos'' l \<longrightarrow> sublist ''#todo'' l"
    using sublist_of_longer [of "''#todo''" "''s''" l] by simp
  show ?thesis
    using 1 2 by (simp add: todo_eq todo_loop_table)
qed

theorem todo_tasks_rows_witness:
  "todo (example_vault\<lparr>vault_notes := [example_note_c, example_note_b]\<rparr>) =
     [Panel_Out ''Notes with #todo tags'' ''b/x.md'',
      Table_Out [(''b/x.md'', join_lines [''Remember the #todo item'', ''also #todo/now here''])]] \<and>
   todo (example_vault\<lparr>vault_notes := [example_note_c]\<rparr>) =
     [Panel_Out ''Notes with #todo tags'' []] \<and>
   sublist ''#todo/now'' ''also #todo/now here'' \<and> sublist ''#todo'' ''also #todo/now here''"
  using todo_tasks_rows [of "example_vault\<lparr>vault_notes := [example_note_c, example_note_b]\<rparr>"
      "''also #todo/now here''"]
  by (simp add: todo_def has_tag_def set_add_def todo_panel_lines_def sublist_Cons_right
      example_vault_def example_notes_def example_note_b_def
      example_note_inbox_def example_note_a_def example_note_c_def)

section \<open>Properties of the tags command\<close>

lemma counter_incr_map_fst:
  "map fst (counter_incr x c) = (if x \<in> set (map fst c) then map fst c else map fst c @ [x])"
  by (induction x c rule: counter_incr.induct) auto

lemma counter_incr_distinct: "distinct (map fst c) \<Longrightarrow> distinct (map fst (counter_incr x c))"
  by (simp only: counter_incr_map_fst split: if_splits) simp

lemma counter_incr_count:
  "count_of (counter_incr x c) y = count_of c y + (if x = y then 1 else 0)"
  by (induction x c rule: counter_incr.induct) (auto simp: count_of_def)

lemma counter_incr_positive:
  "\<forall>p \<in> set c. 0 < snd p \<Longrightarrow> \<forall>p \<in> set (counter_incr x c). 0 < snd p"
  by (induction x c rule: counter_incr.induct) auto

lemma counter_update_keys:
  "set (map fst (counter_update c xs)) = set (map fst c) \<union> set xs"
  unfolding counter_update_def
proof (induction xs arbitrary: c)
  case Nil
  then show ?case by simp
next
  case (Cons x xs)
  have "set (map fst (counter_incr x c)) = insert x (set (map fst c))"
    by (simp only: counter_incr_map_fst split: if_splits) auto
  then show ?case using Cons.IH [of "counter_incr x c"] by auto
qed

lemma counter_update_distinct:
  "distinct (map fst c) \<Longrightarrow> distinct (map fst (counter_update c xs))"
  unfolding counter_update_def
  by (induction xs arbitrary: c) (simp_all add: counter_incr_distinct del: distinct_map)

lemma counter_update_count:
  "count_of (counter_update c xs) y = count_of c y + count_list xs y"
  unfolding counter_update_def
  by (induction xs arbitrary: c) (simp_all add: counter_incr_count)

lemma counter_update_positive:
  "\<forall>p \<in> set c. 0 < snd p \<Longrightarrow> \<forall>p \<in> set (counter_update c xs). 0 < snd p"
  unfolding counter_update_def
proof (induction xs arbitrary: c)
  case Nil
  then show ?case by simp
next
  case (Cons x xs)
  from Cons.prems have "\<forall>p \<in> set (counter_incr x c). 0 < snd p"
    by (rule counter_incr_positive)
  then show ?case using Cons.IH by simp
qed

lemma count_list_distinct: "distinct xs \<Longrightarrow> count_list xs t = (if t \<in> set xs then 1 else 0)"
  by (induction xs) auto

lemma count_list_tags:
  "count_list (list_of_dlist (tags n)) t = (if has_tag n t then 1 else 0)"
  by (simp add: count_list_distinct has_tag_def)

lemma tags_loop_keys:
  "set (map fst (tags_loop ns c)) = set (map fst c) \<union> {t. \<exists>n \<in> set ns. has_tag n t}"
proof (induction ns arbitrary: c)
  case Nil
  then show ?case by simp
next
  case (Cons n ns)
  show ?case
    by (simp only: tags_loop.simps Cons.IH counter_update_keys) (auto simp: has_tag_def)
qed

lemma tags_loop_distinct:
  "distinct (map fst c) \<Longrightarrow> distinct (map fst (tags_loop ns c))"
  by (induction ns arbitrary: c) (simp_all add: counter_update_distinct del: distinct_map)

lemma tags_loop_positive:
  "\<forall>p \<in> set c. 0 < snd p \<Longrightarrow> \<forall>p \<in> set (tags_loop ns c). 0 < snd p"
proof (induction ns arbitrary: c)
  case Nil
  then show ?case by simp
next
  case (Cons n ns)
  from Cons.prems
  have "\<forall>p \<in> set (counter_update c (list_of_dlist (tags n))). 0 < snd p"
    by (rule counter_update_positive)
  then show ?case using Cons.IH by simp
qed

lemma tags_loop_count:
  "count_of (tags_loop ns c) t = count_of c t + length (filter (\<lambda>n. has_tag n t) ns)"
  by (induction ns arbitrary: c) (simp_all add: counter_update_count count_list_tags)

lemma most_common_set: "set (most_common c) = set c"
  by (simp add: most_common_def)

lemma most_common_distinct: "distinct (map fst (most_common c)) = distinct (map fst c)"
proof -
  have "mset (most_common c) = mset c"
    by (simp add: most_common_def)
  then have "mset (map fst (most_common c)) = mset (map fst c)"
    by (metis mset_map)
  then show ?thesis by (metis mset_eq_imp_distinct_iff)
qed

lemma most_common_descending:
  "sorted_wrt (\<lambda>a b. snd b \<le> snd a) (most_common c)"
proof -
  have "sorted (map snd (sort_key snd (rev c)))" by simp
  then have "sorted_wrt (\<lambda>a b. snd a \<le> snd b) (sort_key snd (rev c))"
    by (simp only: sorted_map)
  then show ?thesis
    unfolding most_common_def by (simp only: sorted_wrt_rev)
qed

lemma distinct_keys_count_of:
  "distinct (map fst c) \<Longrightarrow> (t, k) \<in> set c \<longleftrightarrow> map_of c t = Some k"
  by (simp add: map_of_eq_Some_iff)


text \<open>
  Claim C10. The tags command prints one table whose rows are the tags and the decimal
  strings of their counts. No tag has two rows; a tag has a row with a count exactly
  when that count is the number of notes whose tag set holds the tag and is not zero;
  the counts of the rows never increase from one row to the next.
\<close>

theorem tags_counts_notes:
  "\<exists>rows. tags_command v = [Table_Out (map (\<lambda>(tag, count). (tag, str_nat count)) rows)] \<and>
     distinct (map fst rows) \<and>
     (\<forall>tag count. (tag, count) \<in> set rows \<longleftrightarrow>
        (0 < count \<and>
         count = length (filter (\<lambda>n. tag \<in> set (list_of_dlist (tags n))) (vault_notes v)))) \<and>
     sorted_wrt (\<lambda>a b. snd b \<le> snd a) rows"
proof -
  let ?c = "tags_loop (vault_notes v) []"
  let ?num = "\<lambda>tag. length (filter (\<lambda>n. has_tag n tag) (vault_notes v))"
  have d: "distinct (map fst ?c)" by (rule tags_loop_distinct) simp
  have pos: "\<forall>p \<in> set ?c. 0 < snd p" by (rule tags_loop_positive) simp
  have cnt: "count_of ?c tag = ?num tag" for tag
    using tags_loop_count [of "vault_notes v" "[]" tag] by (simp add: count_of_def)
  have keys: "set (map fst ?c) = {t. \<exists>n \<in> set (vault_notes v). has_tag n t}"
    by (simp only: tags_loop_keys) simp
  have iff: "(tag, count) \<in> set ?c \<longleftrightarrow> (0 < count \<and> count = ?num tag)" for tag count
  proof
    assume a: "(tag, count) \<in> set ?c"
    then have "map_of ?c tag = Some count" using d by (simp add: map_of_eq_Some_iff)
    then have "count_of ?c tag = count" by (simp add: count_of_def)
    moreover have "0 < count" using pos a by force
    ultimately show "0 < count \<and> count = ?num tag" using cnt by simp
  next
    assume a: "0 < count \<and> count = ?num tag"
    then have "filter (\<lambda>n. has_tag n tag) (vault_notes v) \<noteq> []" by auto
    then have "\<exists>n \<in> set (vault_notes v). has_tag n tag"
      by (simp add: filter_empty_conv)
    then have "tag \<in> set (map fst ?c)" by (simp only: keys) simp
    then obtain k where k: "(tag, k) \<in> set ?c" by auto
    then have "map_of ?c tag = Some k" using d by (simp add: map_of_eq_Some_iff)
    then have "count_of ?c tag = k" by (simp add: count_of_def)
    then show "(tag, count) \<in> set ?c" using k a cnt by simp
  qed
  show ?thesis
  proof (intro exI conjI)
    show "tags_command v =
        [Table_Out (map (\<lambda>(tag, count). (tag, str_nat count)) (most_common ?c))]"
      by (simp add: tags_command_def)
    show "distinct (map fst (most_common ?c))"
      using d by (simp only: most_common_distinct)
    show "\<forall>tag count. (tag, count) \<in> set (most_common ?c) \<longleftrightarrow>
        (0 < count \<and>
         count = length (filter (\<lambda>n. tag \<in> set (list_of_dlist (tags n))) (vault_notes v)))"
      using iff by (simp only: most_common_set has_tag_def) blast
    show "sorted_wrt (\<lambda>a b. snd b \<le> snd a) (most_common ?c)"
      by (rule most_common_descending)
  qed
qed

theorem tags_counts_notes_witness:
  "tags_command example_vault =
     [Table_Out [(''learn/anki'', ''2''), (''todo'', ''2''), (''todo/now'', ''2''),
                 (''todos'', ''1''), (''learn'', ''1'')]]"
  using tags_counts_notes [of example_vault]
  by (simp add: tags_command_def most_common_def counter_update_def digit_char_def
      example_vault_def example_notes_def example_note_b_def
      example_note_inbox_def example_note_a_def example_note_c_def)

section \<open>Properties of the note parser\<close>

lemma parse_no_mapping:
  assumes "splitlines raw = fence # rest" and "fence \<in> set rest"
    and "\<forall>m. parse_block (takeWhile (\<lambda>l. l \<noteq> fence) rest) \<noteq> Parsed_Mapping m"
  shows "parse fence parse_block raw =
           ([], splitlines raw, dlist_of_list (hashtags False raw))"
proof (cases "parse_block (takeWhile (\<lambda>l. l \<noteq> fence) rest)")
  case Parse_Error
  then show ?thesis using assms(1,2) by (simp add: parse_def Let_def del: dlist_of_list)
next
  case Not_A_Mapping
  then show ?thesis using assms(1,2) by (simp add: parse_def Let_def del: dlist_of_list)
next
  case (Parsed_Mapping m)
  then show ?thesis using assms(3) by simp
qed

lemma read_notes_append:
  "read_notes extension fence parse_block (xs @ ys) =
     read_notes extension fence parse_block xs @ read_notes extension fence parse_block ys"
  by (simp add: read_notes_def)

text \<open>
  Claim C7. The parser is a total function: it gives a result for every text. When the
  fenced block is there but the block parser fails on it or gives something that is
  not a mapping, the frontmatter of the result is empty, and the traversal gives the
  note with empty frontmatter between the notes of the files before it and the notes
  of the files after it.
\<close>

theorem parse_malformed_frontmatter_empty:
  assumes "splitlines raw = fence # rest" and "fence \<in> set rest"
    and "\<forall>m. parse_block (takeWhile (\<lambda>l. l \<noteq> fence) rest) \<noteq> Parsed_Mapping m"
    and "suffix extension path"
  shows "fst (parse fence parse_block raw) = [] \<and>
         read_notes extension fence parse_block (before @ (path, raw) # after) =
           read_notes extension fence parse_block before @
           \<lparr>subpath = path, frontmatter = [],
            tags = dlist_of_list (hashtags False raw), lines = splitlines raw\<rparr> #
           read_notes extension fence parse_block after"
proof -
  have p: "parse fence parse_block raw =
           ([], splitlines raw, dlist_of_list (hashtags False raw))"
    using assms(1-3) by (rule parse_no_mapping)
  have "read_notes extension fence parse_block [(path, raw)] =
          [\<lparr>subpath = path, frontmatter = [],
            tags = dlist_of_list (hashtags False raw), lines = splitlines raw\<rparr>]"
    using assms(4) by (simp add: read_notes_def p del: dlist_of_list)
  then have "read_notes extension fence parse_block (before @ [(path, raw)] @ after) =
           read_notes extension fence parse_block before @
           [\<lparr>subpath = path, frontmatter = [],
            tags = dlist_of_list (hashtags False raw), lines = splitlines raw\<rparr>] @
           read_notes extension fence parse_block after"
    by (simp only: read_notes_append)
  then show ?thesis using p by simp
qed

theorem parse_malformed_frontmatter_empty_witness:
  "splitlines (join_lines [''---'', ''status: [unclosed'', ''---'', ''body #learn/anki'']) =
     ''---'' # [''status: [unclosed'', ''---'', ''body #learn/anki''] \<and>
   example_parse_block [''status: [unclosed''] = Parse_Error \<and>
   suffix ''.md'' ''b/x.md'' \<and>
   read_notes ''.md'' ''---'' example_parse_block example_tree =
     [\<lparr>subpath = ''a/x.md'', frontmatter = [(''status'', ''done'')],
       tags = dlist_of_list [''todo''], lines = [''Remember the #todo item'']\<rparr>,
      \<lparr>subpath = ''b/x.md'', frontmatter = [],
       tags = dlist_of_list [''learn/anki''],
       lines = [''---'', ''status: [unclosed'', ''---'', ''body #learn/anki'']\<rparr>,
      \<lparr>subpath = ''c/y.md'', frontmatter = [],
       tags = dlist_of_list [''todo/now''], lines = [''#todo/now check this'']\<rparr>]"
  using parse_malformed_frontmatter_empty
    [where raw = "join_lines [''---'', ''status: [unclosed'', ''---'', ''body #learn/anki'']"
       and fence = "''---''" and rest = "[''status: [unclosed'', ''---'', ''body #learn/anki'']"
       and parse_block = example_parse_block and extension = "''.md''" and path = "''b/x.md''"
       and before = "take 1 example_tree" and after = "drop 2 example_tree"]
  by (simp add: read_notes_def parse_def splitlines_def example_parse_block_def
      example_tree_def is_tag_char_def is_word_char_def suffix_def)

end
